theory Spec2Isabelle
  imports Main
begin

section \<open>JavaScript strings and arrays\<close>

text \<open>
  A JavaScript string is a sequence of UTF-16 code units; a code unit is modelled as a
  natural number below 65536. \<open>ascii\<close> writes a literal.
\<close>

type_synonym jsstring = "nat list"

definition ascii :: "string \<Rightarrow> jsstring" where
  "ascii s = map of_char s"

text \<open>
  \<open>String.prototype.trim\<close> removes WhiteSpace and LineTerminator code points at both ends
  (ECMAScript: TAB, VT, FF, SP, NBSP, ZWNBSP, the Unicode space separators, and LF, CR, LS, PS).
\<close>

definition isWhiteSpace :: "nat \<Rightarrow> bool" where
  "isWhiteSpace c \<longleftrightarrow>
     c = 9 \<or> c = 10 \<or> c = 11 \<or> c = 12 \<or> c = 13 \<or> c = 32 \<or> c = 160 \<or> c = 5760 \<or>
     (8192 \<le> c \<and> c \<le> 8202) \<or> c = 8232 \<or> c = 8233 \<or> c = 8239 \<or> c = 8287 \<or>
     c = 12288 \<or> c = 65279"

definition js_trim :: "jsstring \<Rightarrow> jsstring" where
  "js_trim s = rev (dropWhile isWhiteSpace (rev (dropWhile isWhiteSpace s)))"

definition js_endsWith :: "jsstring \<Rightarrow> jsstring \<Rightarrow> bool" where
  "js_endsWith s suffix \<longleftrightarrow>
     length suffix \<le> length s \<and> drop (length s - length suffix) s = suffix"

text \<open>
  \<open>slice(start, end)\<close> of arrays and strings: a negative index counts from the end, and
  both indices are clamped to the length.
\<close>

definition js_slice :: "'a list \<Rightarrow> int \<Rightarrow> int \<Rightarrow> 'a list" where
  "js_slice xs start end =
     (let len = int (length xs);
          k = (if start < 0 then max (len + start) 0 else min start len);
          fin = (if end < 0 then max (len + end) 0 else min end len)
      in take (nat (fin - k)) (drop (nat k) xs))"

fun js_join :: "jsstring \<Rightarrow> jsstring list \<Rightarrow> jsstring" where
  "js_join sep [] = []"
| "js_join sep [x] = x"
| "js_join sep (x # y # ys) = x @ sep @ js_join sep (y # ys)"

section \<open>The merge rule of the result-application task\<close>

text \<open>
  \<open>content[content.length - 1]?.trim()\<close>: undefined on an empty transcript.
\<close>

definition lastItem :: "jsstring list \<Rightarrow> jsstring option" where
  "lastItem content = (if content = [] then None else Some (js_trim (last content)))"

definition threeDots :: jsstring where
  "threeDots = ascii ''...''"

text \<open>
  Lines 104 to 115 of \<open>onAudio\<close>: the mutation of the transcript by a text that has passed
  the \<open>if (!text) return\<close> guard.
\<close>

definition mergeText :: "jsstring list \<Rightarrow> jsstring \<Rightarrow> jsstring list" where
  "mergeText content text' =
     (case lastItem content of
        None \<Rightarrow> content @ [text']
      | Some l \<Rightarrow>
          if l \<noteq> [] \<and> js_endsWith l threeDots then
            (let lastItemWithoutThreeDot = js_slice l 0 (int (length l) - 3)
             in content[length content - 1 := lastItemWithoutThreeDot @ ascii '' '' @ text'])
          else content @ [text'])"

text \<open>
  The value awaited from \<open>textPromise.catch(console.error)\<close> is the text, or undefined
  after a rejection; undefined and the empty string are falsy and leave the transcript as
  it is.
\<close>

definition applyText :: "jsstring list \<Rightarrow> jsstring option \<Rightarrow> jsstring list" where
  "applyText content r =
     (case r of
        None \<Rightarrow> content
      | Some text' \<Rightarrow> if text' = [] then content else mergeText content text')"

text \<open>
  \<open>content.slice(content.length - 3, content.length).join("\n")\<close>, the first statement of
  \<open>onAudio\<close>.
\<close>

definition whisperPrompt :: "jsstring list \<Rightarrow> jsstring" where
  "whisperPrompt content =
     js_join [10] (js_slice content (int (length content) - 3) (int (length content)))"

text \<open>\<open>language: savedLanguage !== "auto" ? savedLanguage : undefined\<close>.\<close>

definition requestLanguage :: "jsstring \<Rightarrow> jsstring option" where
  "requestLanguage savedLanguage =
     (if savedLanguage \<noteq> ascii ''auto'' then Some savedLanguage else None)"

section \<open>Audio capture (captureAudio.ts)\<close>

type_synonym blob = "nat list"

record audioFile =
  fname :: string
  ftype :: string
  fdata :: blob

text \<open>
  The closure state of one \<open>captureAudio\<close> call: \<open>startedAt\<close> (undefined until the first
  recording), \<open>chunks\<close>, \<open>stopRecord\<close> (the stop function of a recorder, named by the
  recorder's number) and \<open>minChunkDuration\<close>. The other fields are the state of its
  collaborators: whether the speech detector is still subscribed, the pending
  \<open>setTimeout(stopRecord, 30)\<close> callbacks in the order they were scheduled (each holds the
  value \<open>stopRecord\<close> had then), the number of recorders made, and the log of calls of stop
  functions.
\<close>

record capture =
  startedAt :: "int option"
  chunks :: "blob list"
  stopRecord :: "nat option"
  minChunkDuration :: int
  subscribed :: bool
  timers :: "nat option list"
  recorders :: nat
  stopCalls :: "nat list"

definition defaultMinChunkDuration :: int where
  "defaultMinChunkDuration = 5000"

text \<open>
  Modelled from the spec: \<open>recordAudio\<close> (lib/capture-audio/record) is not among the
  sources. It is taken as \<open>startRecord\<close> uses it: a call makes a recorder, gives it
  \<open>onDataAvailable\<close> and returns the function that stops it. The recorders are numbered in
  the order of the calls, and the calls of their stop functions are logged. Nothing is
  assumed about when a recorder hands over its data: in the spec a chunk is flushed after
  a speech end, that is when the recorder has been stopped.
\<close>

definition recordAudio :: "capture \<Rightarrow> nat \<times> capture" where
  "recordAudio c = (recorders c, c\<lparr>recorders := Suc (recorders c)\<rparr>)"

definition stopRecorder :: "nat \<Rightarrow> capture \<Rightarrow> capture" where
  "stopRecorder r c = c\<lparr>stopCalls := stopCalls c @ [r]\<rparr>"

text \<open>
  \<open>onDataAvailable\<close>. \<open>Date.now()\<close> is read twice, for the test and for the new
  \<open>startedAt\<close>. With \<open>startedAt\<close> undefined the difference is NaN, the comparison is false and
  the chunk is flushed.
\<close>

definition onDataAvailable :: "blob \<Rightarrow> int \<Rightarrow> int \<Rightarrow> capture \<Rightarrow> audioFile option \<times> capture" where
  "onDataAvailable data now1 now2 c =
     (let c1 = c\<lparr>chunks := chunks c @ [data]\<rparr> in
      if (case startedAt c1 of None \<Rightarrow> False | Some t \<Rightarrow> now1 - t < minChunkDuration c1)
      then (None, c1)
      else (Some \<lparr>fname = ''meeper_chunk.webm'', ftype = ''audio/webm'',
                   fdata = concat (chunks c1)\<rparr>,
            c1\<lparr>startedAt := Some now2, chunks := []\<rparr>))"

text \<open>\<open>startRecord\<close>: \<open>!startedAt\<close> holds for undefined and for 0.\<close>

definition startRecord :: "int \<Rightarrow> capture \<Rightarrow> capture" where
  "startRecord now c =
     (let c1 = (if startedAt c = None \<or> startedAt c = Some 0 then c\<lparr>startedAt := Some now\<rparr> else c);
          (r, c2) = recordAudio c1
      in c2\<lparr>stopRecord := Some r\<rparr>)"

definition onSpeechStart :: "int \<Rightarrow> capture \<Rightarrow> capture" where
  "onSpeechStart now c = startRecord now c"

text \<open>\<open>onSpeechEnd\<close>: \<open>setTimeout(stopRecord!, 30)\<close> passes the present value of \<open>stopRecord\<close>.\<close>

definition onSpeechEnd :: "capture \<Rightarrow> capture" where
  "onSpeechEnd c = c\<lparr>timers := timers c @ [stopRecord c]\<rparr>"

text \<open>The oldest pending timeout fires and calls what it holds (nothing, if undefined).\<close>

definition fireTimer :: "capture \<Rightarrow> capture" where
  "fireTimer c =
     (case timers c of
        [] \<Rightarrow> c
      | h # ts \<Rightarrow>
          (let c1 = c\<lparr>timers := ts\<rparr> in
           case h of None \<Rightarrow> c1 | Some r \<Rightarrow> stopRecorder r c1))"

text \<open>The function \<open>captureAudio\<close> returns: \<open>stopSpeechDetect(); stopRecord?.()\<close>.\<close>

definition teardown :: "capture \<Rightarrow> capture" where
  "teardown c =
     (let c1 = c\<lparr>subscribed := False\<rparr> in
      case stopRecord c1 of None \<Rightarrow> c1 | Some r \<Rightarrow> stopRecorder r c1)"

definition captureAudio :: "int \<Rightarrow> capture" where
  "captureAudio minDur =
     \<lparr>startedAt = None, chunks = [], stopRecord = None, minChunkDuration = minDur,
      subscribed = True, timers = [], recorders = 0, stopCalls = []\<rparr>"

text \<open>
  What the collaborators of a capture can do to it. Modelled from the spec:
  \<open>detectSpeechEnd\<close> (lib/capture-audio/detectSpeech) is not among the sources; the spec says
  that after its teardown it emits no further event. A data event is given to
  \<open>onDataAvailable\<close> whenever it comes, as the handler has no condition of its own.
\<close>

datatype capture_event =
  SpeechStart int
| SpeechEnd
| TimerFired
| DataAvailable blob int int

fun capture_step :: "capture_event \<Rightarrow> capture \<Rightarrow> audioFile option \<times> capture" where
  "capture_step (SpeechStart now) c = (None, if subscribed c then onSpeechStart now c else c)"
| "capture_step SpeechEnd c = (None, if subscribed c then onSpeechEnd c else c)"
| "capture_step TimerFired c = (None, fireTimer c)"
| "capture_step (DataAvailable d now1 now2) c = onDataAvailable d now1 now2 c"

text \<open>A run of a capture: the files handed to \<open>onAudio\<close>, in order, and the last state.\<close>

fun capture_run :: "capture_event list \<Rightarrow> capture \<Rightarrow> audioFile list \<times> capture" where
  "capture_run [] c = ([], c)"
| "capture_run (e # es) c =
     (let (fo, c1) = capture_step e c; (fs, c2) = capture_run es c1
      in ((case fo of None \<Rightarrow> [] | Some f \<Rightarrow> [f]) @ fs, c2))"

section \<open>The recording session (recordMeeper)\<close>

datatype error = NoStreamError | WhisperError nat

text \<open>
  A MediaStream, as far as the session reads it: one flag for each track, true while the
  track is live. The stream is active while one of its tracks is live.
\<close>

record mstream =
  tracks :: "bool list"

definition active :: "mstream \<Rightarrow> bool" where
  "active st \<longleftrightarrow> True \<in> set (tracks st)"

definition stopTracks :: "mstream \<Rightarrow> mstream" where
  "stopTracks st = st\<lparr>tracks := map (\<lambda>t. False) (tracks st)\<rparr>"

text \<open>
  A call of \<open>onAudio\<close> that waits for \<open>getLangCode()\<close>, and a task in the serial queue with
  the request it made (the credential is a constant of the build and is left out).
  Chunks are numbered in the order \<open>onAudio\<close> receives them.
\<close>

record lookup =
  lkChunk :: nat
  lkFile :: audioFile
  lkPrompt :: jsstring

record job =
  jobChunk :: nat
  jobFile :: audioFile
  jobPrompt :: jsstring
  jobLanguage :: "jsstring option"
  jobSettled :: bool

text \<open>
  The variables of \<open>recordMeeper\<close>: \<open>recording\<close>, \<open>content\<close>, the three streams and
  \<open>stopCaptureAudio\<close> (the capture whose teardown it is). \<open>polling\<close> says that a timeout for
  the next \<open>checkIsStreamIsActive\<close> is pending. \<open>notifications\<close> logs the calls of
  \<open>dispatch\<close>, \<open>console\<close> the errors given to \<open>console.error\<close>, \<open>dbWrites\<close> the contents
  sent to the store, \<open>created\<close> counts the calls of \<open>onAudio\<close> and \<open>enqueued\<close> logs the chunks
  in the order their tasks entered the queue.
\<close>

record session =
  recording :: bool
  content :: "jsstring list"
  tabCaptureStream :: "mstream option"
  micStream :: "mstream option"
  stream :: mstream
  stopCaptureAudio :: "capture option"
  polling :: bool
  notifications :: "(bool \<times> jsstring list) list"
  console :: "error list"
  unhandled :: "error list"
  dbWrites :: "jsstring list list"
  created :: nat
  awaitingLang :: "lookup list"
  queue :: "job list"
  enqueued :: "nat list"

definition dispatch :: "session \<Rightarrow> session" where
  "dispatch s = s\<lparr>notifications := notifications s @ [(recording s, content s)]\<rparr>"

subsection \<open>Transcription of a chunk\<close>

text \<open>
  Modelled from the spec: \<open>retry\<close> (lib/system) is not among the sources. The spec says that
  the call is retried on failure, up to \<open>maxAttempts\<close> attempts with a fixed delay between
  them, and that the failure is reported when all attempts fail. \<open>fn i\<close> is the outcome of
  attempt \<open>i\<close>, counted from 1; the first attempt is always made.
\<close>

primrec retry_from :: "(nat \<Rightarrow> error + 'a) \<Rightarrow> nat \<Rightarrow> nat \<Rightarrow> error + 'a" where
  "retry_from fn i 0 = fn i"
| "retry_from fn i (Suc n) =
     (case fn i of Inr v \<Rightarrow> Inr v | Inl e \<Rightarrow> retry_from fn (Suc i) n)"

definition retry :: "(nat \<Rightarrow> error + 'a) \<Rightarrow> nat \<Rightarrow> nat \<Rightarrow> error + 'a" where
  "retry fn delay maxAttempts = retry_from fn 1 (maxAttempts - 1)"

text \<open>
  \<open>retry(() => requestWhisperOpenaiApi(...), 100, 2)\<close>; \<open>svc c i\<close> is the answer of the
  service to attempt \<open>i\<close> for chunk \<open>c\<close>.
\<close>

definition textPromise :: "(nat \<Rightarrow> nat \<Rightarrow> error + jsstring) \<Rightarrow> nat \<Rightarrow> error + jsstring" where
  "textPromise svc c = retry (svc c) 100 2"

text \<open>
  \<open>onAudio\<close> up to \<open>await getLangCode()\<close>: the prompt is taken from the transcript as it is
  now.
\<close>

definition onAudio :: "audioFile \<Rightarrow> session \<Rightarrow> session" where
  "onAudio f s =
     s\<lparr>created := Suc (created s),
       awaitingLang := awaitingLang s @
         [\<lparr>lkChunk = created s, lkFile = f, lkPrompt = whisperPrompt (content s)\<rparr>]\<rparr>"

text \<open>
  \<open>onAudio\<close> after \<open>getLangCode()\<close> has resolved for chunk \<open>c\<close>: the request is started and
  the task is put in the queue.
\<close>

definition langResolved :: "nat \<Rightarrow> jsstring \<Rightarrow> session \<Rightarrow> session" where
  "langResolved c savedLanguage s =
     (case find (\<lambda>l. lkChunk l = c) (awaitingLang s) of
        None \<Rightarrow> s
      | Some l \<Rightarrow>
          s\<lparr>awaitingLang := filter (\<lambda>l. lkChunk l \<noteq> c) (awaitingLang s),
            queue := queue s @
              [\<lparr>jobChunk = c, jobFile = lkFile l, jobPrompt = lkPrompt l,
                jobLanguage = requestLanguage savedLanguage, jobSettled = False\<rparr>],
            enqueued := enqueued s @ [c]\<rparr>)"

text \<open>\<open>p.catch(console.error)\<close>: a rejection is logged and becomes undefined.\<close>

definition catchLog :: "error + 'a \<Rightarrow> session \<Rightarrow> 'a option \<times> session" where
  "catchLog p s =
     (case p of
        Inl e \<Rightarrow> (None, s\<lparr>console := console s @ [e]\<rparr>)
      | Inr v \<Rightarrow> (Some v, s))"

text \<open>
  The two updates of the store; their failure is logged and changes nothing else, and the
  time of the update is left out.
\<close>

definition persist :: "session \<Rightarrow> session" where
  "persist s = s\<lparr>dbWrites := dbWrites s @ [content s]\<rparr>"

text \<open>
  The task given to \<open>withQueue\<close>, run with the settled \<open>textPromise\<close>: first the body of
  its \<open>try\<close>, then the task with its \<open>catch\<close>.
\<close>

definition taskBody :: "error + jsstring \<Rightarrow> session \<Rightarrow> error + session" where
  "taskBody p s =
     (let (text', s1) = catchLog p s in
      case text' of
        None \<Rightarrow> Inr s1
      | Some t \<Rightarrow>
          if t = [] then Inr s1
          else Inr (persist (dispatch (s1\<lparr>content := mergeText (content s1) t\<rparr>))))"

definition queueTask :: "error + jsstring \<Rightarrow> session \<Rightarrow> error + session" where
  "queueTask p s =
     (case taskBody p s of
        Inl err \<Rightarrow> Inr (s\<lparr>console := console s @ [err]\<rparr>)
      | Inr s' \<Rightarrow> Inr s')"

text \<open>
  Modelled from the spec: \<open>promiseQueue\<close> (lib/system) is not among the sources. The spec
  says that the queue is strictly serial, in the order of enqueueing: a task does not begin
  before the one before it has finished. The task at the head waits for its \<open>textPromise\<close>;
  \<open>drain\<close> runs the tasks at the head whose promise has settled. A task that would reject
  is recorded and the queue goes on.
\<close>

fun drain :: "(nat \<Rightarrow> nat \<Rightarrow> error + jsstring) \<Rightarrow> job list \<Rightarrow> session \<Rightarrow> job list \<times> session" where
  "drain svc [] s = ([], s)"
| "drain svc (j # js) s =
     (if jobSettled j then
        (case queueTask (textPromise svc (jobChunk j)) s of
           Inr s' \<Rightarrow> drain svc js s'
         | Inl e \<Rightarrow> drain svc js (s\<lparr>unhandled := unhandled s @ [e]\<rparr>))
      else (j # js, s))"

definition runQueue :: "(nat \<Rightarrow> nat \<Rightarrow> error + jsstring) \<Rightarrow> session \<Rightarrow> session" where
  "runQueue svc s = (let (q, s') = drain svc (queue s) s in s'\<lparr>queue := q\<rparr>)"

text \<open>The \<open>textPromise\<close> of chunk \<open>c\<close> settles.\<close>

definition settle :: "(nat \<Rightarrow> nat \<Rightarrow> error + jsstring) \<Rightarrow> nat \<Rightarrow> session \<Rightarrow> session" where
  "settle svc c s =
     runQueue svc
       (s\<lparr>queue := map (\<lambda>j. if jobChunk j = c then j\<lparr>jobSettled := True\<rparr> else j) (queue s)\<rparr>)"

subsection \<open>start, pause, stop and the health monitor\<close>

definition start :: "session \<Rightarrow> session" where
  "start s =
     (if recording s \<or> \<not> active (stream s) then s
      else (dispatch (s\<lparr>recording := True\<rparr>))
             \<lparr>stopCaptureAudio := Some (captureAudio defaultMinChunkDuration)\<rparr>)"

definition pause :: "session \<Rightarrow> session" where
  "pause s =
     (if \<not> recording s then s
      else (dispatch (s\<lparr>recording := False\<rparr>))
             \<lparr>stopCaptureAudio := map_option teardown (stopCaptureAudio s)\<rparr>)"

definition stop :: "session \<Rightarrow> session" where
  "stop s =
     (let s1 = pause s in
      if active (stream s1) then s1\<lparr>stream := stopTracks (stream s1)\<rparr> else s1)"

text \<open>
  \<open>checkIsStreamIsActive\<close>. \<open>micCapture\<close> is the outcome of the call of that name, should it
  be made, and \<open>merged\<close> the stream \<open>mergeStreams\<close> then returns (lib/capture-audio, not among
  the sources; it mixes the sources through the audio context, so the merged stream has
  tracks of its own). The wait for \<open>micCapture()\<close> is not a step of its own: a stream that is not
  active has no means to be active again, so a command that arrives during the wait acts as
  one that arrives before the poll.
\<close>

definition isStreamsActive :: "session \<Rightarrow> bool" where
  "isStreamsActive s \<longleftrightarrow>
     list_all (\<lambda>st. case st of None \<Rightarrow> True | Some x \<Rightarrow> active x)
       [tabCaptureStream s, micStream s]"

definition reacquire :: "error + mstream \<Rightarrow> mstream \<Rightarrow> session \<Rightarrow> session" where
  "reacquire micCapture merged s =
     (case micCapture of
        Inl e \<Rightarrow> s\<lparr>console := console s @ [e]\<rparr>
      | Inr newMicStream \<Rightarrow>
          (let restart = recording s;
               s1 = (if recording s then pause s else s);
               s2 = s1\<lparr>micStream := Some newMicStream, stream := merged\<rparr>
           in if restart then start s2 else dispatch s2))"

definition micCheck :: "error + mstream \<Rightarrow> mstream \<Rightarrow> session \<Rightarrow> session" where
  "micCheck micCapture merged s =
     (case micStream s of
        None \<Rightarrow> s
      | Some m \<Rightarrow> if \<not> active m then reacquire micCapture merged s else s)"

definition checkIsStreamIsActive :: "error + mstream \<Rightarrow> mstream \<Rightarrow> session \<Rightarrow> session" where
  "checkIsStreamIsActive micCapture merged s =
     (let s1 = micCheck micCapture merged s
      in if \<not> isStreamsActive s1 then (dispatch (stop s1))\<lparr>polling := False\<rparr>
         else s1\<lparr>polling := True\<rparr>)"

subsection \<open>Events\<close>

datatype source = Tab | Mic | Merged

text \<open>
  What can happen to a session: a command, the timeout of the health monitor (with the
  answers of \<open>micCapture\<close> and \<open>mergeStreams\<close>), an event of the capture in use, the end of
  the tracks of a stream, \<open>getLangCode()\<close> resolving for a chunk, and the request of a chunk
  settling. The events of a capture are those of the capture in use: \<open>start()\<close> replaces
  a capture only when the session is not recording, that is after \<open>pause()\<close> has torn it
  down.
\<close>

datatype event =
  Start
| Pause
| Stop
| Poll "error + mstream" mstream
| Capture capture_event
| TracksEnded source
| LangResolved nat jsstring
| Settled nat

definition captureEvent :: "capture_event \<Rightarrow> session \<Rightarrow> session" where
  "captureEvent e s =
     (case stopCaptureAudio s of
        None \<Rightarrow> s
      | Some c \<Rightarrow>
          (let (fo, c1) = capture_step e c;
               s1 = s\<lparr>stopCaptureAudio := Some c1\<rparr>
           in case fo of None \<Rightarrow> s1 | Some f \<Rightarrow> onAudio f s1))"

definition tracksEnded :: "source \<Rightarrow> session \<Rightarrow> session" where
  "tracksEnded src s =
     (case src of
        Tab \<Rightarrow> s\<lparr>tabCaptureStream := map_option stopTracks (tabCaptureStream s)\<rparr>
      | Mic \<Rightarrow> s\<lparr>micStream := map_option stopTracks (micStream s)\<rparr>
      | Merged \<Rightarrow> s\<lparr>stream := stopTracks (stream s)\<rparr>)"

fun step :: "(nat \<Rightarrow> nat \<Rightarrow> error + jsstring) \<Rightarrow> event \<Rightarrow> session \<Rightarrow> session" where
  "step svc Start s = start s"
| "step svc Pause s = pause s"
| "step svc Stop s = stop s"
| "step svc (Poll micCapture merged) s =
     (if polling s then checkIsStreamIsActive micCapture merged s else s)"
| "step svc (Capture e) s = captureEvent e s"
| "step svc (TracksEnded src) s = tracksEnded src s"
| "step svc (LangResolved c savedLanguage) s = langResolved c savedLanguage s"
| "step svc (Settled c) s = settle svc c s"

fun run :: "(nat \<Rightarrow> nat \<Rightarrow> error + jsstring) \<Rightarrow> event list \<Rightarrow> session \<Rightarrow> session" where
  "run svc [] s = s"
| "run svc (e # es) s = run svc es (step svc e s)"

text \<open>
  The state \<open>recordMeeper\<close> sets up from the streams it obtained, before its calls of
  \<open>start()\<close> and \<open>checkIsStreamIsActive()\<close>.
\<close>

definition initial :: "mstream option \<Rightarrow> mstream option \<Rightarrow> mstream \<Rightarrow> session" where
  "initial tab mic merged =
     \<lparr>recording = False, content = [], tabCaptureStream = tab, micStream = mic,
      stream = merged, stopCaptureAudio = None, polling = False, notifications = [],
      console = [], unhandled = [], dbWrites = [], created = 0, awaitingLang = [],
      queue = [], enqueued = []\<rparr>"

definition recordMeeper ::
  "mstream option \<Rightarrow> mstream option \<Rightarrow> mstream \<Rightarrow> error + mstream \<Rightarrow> mstream \<Rightarrow> session" where
  "recordMeeper tab mic merged micCapture merged' =
     checkIsStreamIsActive micCapture merged' (start (initial tab mic merged))"

subsection \<open>Invariants and schedules\<close>

text \<open>
  While the session is not recording, the capture it holds, if any, has been torn down:
  its speech detector is no longer subscribed. This holds after \<open>recordMeeper\<close> and is kept
  by every event.
\<close>

definition session_inv :: "session \<Rightarrow> bool" where
  "session_inv s \<longleftrightarrow>
     (case stopCaptureAudio s of
        None \<Rightarrow> \<not> recording s
      | Some c \<Rightarrow> recording s \<or> \<not> subscribed c)"

definition stopped :: "session \<Rightarrow> bool" where
  "stopped s \<longleftrightarrow>
     \<not> recording s \<and> \<not> active (stream s) \<and> \<not> polling s \<and>
     (case stopCaptureAudio s of None \<Rightarrow> True | Some c \<Rightarrow> \<not> subscribed c)"

text \<open>The events in which a recorder hands data to the capture.\<close>

fun dataEvent :: "event \<Rightarrow> bool" where
  "dataEvent (Capture (DataAvailable d now1 now2)) = True"
| "dataEvent e = False"

text \<open>What the task of chunk \<open>c\<close> awaits: the text, or undefined after a rejection.\<close>

definition settledText :: "(nat \<Rightarrow> nat \<Rightarrow> error + jsstring) \<Rightarrow> nat \<Rightarrow> jsstring option" where
  "settledText svc c = (case textPromise svc c of Inl e \<Rightarrow> None | Inr t \<Rightarrow> Some t)"

text \<open>
  A schedule in which \<open>getLangCode()\<close> resolves in the order of its calls: each
  \<open>LangResolved\<close> is for the oldest waiting chunk.
\<close>

fun langFifo :: "(nat \<Rightarrow> nat \<Rightarrow> error + jsstring) \<Rightarrow> event list \<Rightarrow> session \<Rightarrow> bool" where
  "langFifo svc [] s = True"
| "langFifo svc (e # es) s =
     ((case e of
         LangResolved c l \<Rightarrow> (case awaitingLang s of [] \<Rightarrow> False | x # xs \<Rightarrow> lkChunk x = c)
       | _ \<Rightarrow> True) \<and>
      langFifo svc es (step svc e s))"

text \<open>
  The transcript that results when the tasks now in the queue have run is the one the
  texts of the chunks give when applied in the order of enqueueing.
\<close>

definition queue_inv :: "(nat \<Rightarrow> nat \<Rightarrow> error + jsstring) \<Rightarrow> session \<Rightarrow> bool" where
  "queue_inv svc s \<longleftrightarrow>
     foldl applyText (content s) (map (\<lambda>j. settledText svc (jobChunk j)) (queue s)) =
     foldl applyText [] (map (settledText svc) (enqueued s))"

text \<open>The chunks enqueued and the chunks waiting for their language are all chunks, in order.\<close>

definition fifo_inv :: "session \<Rightarrow> bool" where
  "fifo_inv s \<longleftrightarrow> enqueued s @ map lkChunk (awaitingLang s) = [0..<created s]"

text \<open>Two states with the same transcript, queue and chunks.\<close>

definition same_pipeline :: "session \<Rightarrow> session \<Rightarrow> bool" where
  "same_pipeline s' s \<longleftrightarrow>
     content s' = content s \<and> queue s' = queue s \<and> enqueued s' = enqueued s \<and>
     awaitingLang s' = awaitingLang s \<and> created s' = created s"

subsection \<open>Example inputs\<close>

definition liveStream :: mstream where
  "liveStream = \<lparr>tracks = [True]\<rparr>"

text \<open>
  A session on the microphone only, and one on a tab and the microphone, as
  \<open>recordMeeper\<close> returns them: recording, with the next poll pending.
\<close>

definition micSession :: session where
  "micSession = recordMeeper None (Some liveStream) liveStream (Inl NoStreamError) liveStream"

definition tabMicSession :: session where
  "tabMicSession =
     recordMeeper (Some liveStream) (Some liveStream) liveStream (Inl NoStreamError) liveStream"

text \<open>A service that answers at the first attempt, "first" for chunk 0 and "second" otherwise.\<close>

definition exampleService :: "nat \<Rightarrow> nat \<Rightarrow> error + jsstring" where
  "exampleService c i = Inr (if c = 0 then ascii ''first'' else ascii ''second'')"

text \<open>
  A service that fails once for chunk 0 and then answers "late", and that answers "early"
  at the first attempt for the other chunks and would fail at a later one.
\<close>

definition flakyService :: "nat \<Rightarrow> nat \<Rightarrow> error + jsstring" where
  "flakyService c i =
     (if c = 0 then (if i = 1 then Inl (WhisperError 1) else Inr (ascii ''late''))
      else (if i = 1 then Inr (ascii ''early'') else Inl (WhisperError i)))"

text \<open>A service that fails twice for chunk 0 and answers "second" otherwise.\<close>

definition failingService :: "nat \<Rightarrow> nat \<Rightarrow> error + jsstring" where
  "failingService c i = (if c = 0 then Inl (WhisperError i) else Inr (ascii ''second''))"

section \<open>The merge rule\<close>

lemma endsWith_threeDots_length: "js_endsWith l threeDots \<Longrightarrow> 3 \<le> length l"
  by (simp add: js_endsWith_def threeDots_def ascii_def)

lemma js_slice_prefix:
  "3 \<le> length l \<Longrightarrow> js_slice l 0 (int (length l) - 3) = take (length l - 3) l"
  by (simp add: js_slice_def Let_def nat_diff_distrib')

lemma update_last: "xs \<noteq> [] \<Longrightarrow> xs[length xs - Suc 0 := v] = butlast xs @ [v]"
  by (induction xs rule: rev_induct) (simp_all add: list_update_append)

lemma mergeText_continue:
  assumes "cs \<noteq> []" and "js_endsWith (js_trim (last cs)) threeDots"
  shows "mergeText cs t =
     butlast cs @ [take (length (js_trim (last cs)) - 3) (js_trim (last cs)) @ ascii '' '' @ t]"
proof -
  have len: "3 \<le> length (js_trim (last cs))"
    using assms(2) by (rule endsWith_threeDots_length)
  then have ne: "js_trim (last cs) \<noteq> []" by auto
  show ?thesis
    using assms ne by (simp add: mergeText_def lastItem_def js_slice_prefix [OF len] update_last)
qed

lemma mergeText_append:
  assumes "cs = [] \<or> \<not> js_endsWith (js_trim (last cs)) threeDots"
  shows "mergeText cs t = cs @ [t]"
  using assms by (auto simp add: mergeText_def lastItem_def)

text \<open>
  C2. Let \<open>t\<close> be a non-empty transcription text. If the transcript is not empty and its
  last segment, trimmed, ends with three dots, applying \<open>t\<close> replaces the last segment by
  the trimmed segment without its last three characters, one space and \<open>t\<close>, and the
  number of segments stays the same. Otherwise \<open>t\<close> is appended as a new last segment.
  The last segment "Hello, how are you..." with the text "is it going" becomes
  "Hello, how are you is it going".
\<close>

theorem merge_rule:
  assumes "t \<noteq> []"
  shows "(cs \<noteq> [] \<and> js_endsWith (js_trim (last cs)) threeDots \<longrightarrow>
            applyText cs (Some t) =
              butlast cs @
                [take (length (js_trim (last cs)) - 3) (js_trim (last cs)) @ ascii '' '' @ t] \<and>
            length (applyText cs (Some t)) = length cs) \<and>
         (\<not> (cs \<noteq> [] \<and> js_endsWith (js_trim (last cs)) threeDots) \<longrightarrow>
            applyText cs (Some t) = cs @ [t]) \<and>
         applyText [ascii ''Hello, how are you...''] (Some (ascii ''is it going'')) =
           [ascii ''Hello, how are you is it going'']"
proof (intro conjI impI)
  assume a: "cs \<noteq> [] \<and> js_endsWith (js_trim (last cs)) threeDots"
  then show "applyText cs (Some t) =
      butlast cs @
        [take (length (js_trim (last cs)) - 3) (js_trim (last cs)) @ ascii '' '' @ t]"
    using assms by (simp add: applyText_def mergeText_continue)
  then show "length (applyText cs (Some t)) = length cs"
    using a by simp
next
  assume "\<not> (cs \<noteq> [] \<and> js_endsWith (js_trim (last cs)) threeDots)"
  then show "applyText cs (Some t) = cs @ [t]"
    using assms by (simp add: applyText_def mergeText_append)
next
  show "applyText [ascii ''Hello, how are you...''] (Some (ascii ''is it going'')) =
           [ascii ''Hello, how are you is it going'']"
    by (simp add: applyText_def mergeText_def lastItem_def js_trim_def isWhiteSpace_def ascii_def
        threeDots_def js_endsWith_def js_slice_def)
qed

theorem merge_rule_witness:
  "applyText [ascii ''Hello there.''] (Some (ascii ''Next sentence.'')) =
     [ascii ''Hello there.'', ascii ''Next sentence.''] \<and>
   applyText [ascii ''One'', ascii ''  two... ''] (Some (ascii ''three'')) =
     [ascii ''One'', ascii ''two three'']"
  using merge_rule [of "ascii ''Next sentence.''" "[ascii ''Hello there.'']"]
    merge_rule [of "ascii ''three''" "[ascii ''One'', ascii ''  two... '']"]
  by (simp add: js_trim_def isWhiteSpace_def ascii_def threeDots_def js_endsWith_def)

section \<open>The continuation prompt\<close>

lemma whisperPrompt_last3:
  "length cs \<noteq> 2 \<Longrightarrow> whisperPrompt cs = js_join [10] (drop (length cs - 3) cs)"
  by (auto simp add: whisperPrompt_def js_slice_def Let_def nat_diff_distrib')

lemma whisperPrompt_two: "whisperPrompt [a, b] = b"
  by (simp add: whisperPrompt_def js_slice_def)

lemma requestLanguage_auto:
  "requestLanguage (ascii ''auto'') = None \<and>
   (l \<noteq> ascii ''auto'' \<longrightarrow> requestLanguage l = Some l)"
  by (simp add: requestLanguage_def)

text \<open>
  C9. With the two-segment transcript "a", "b" the prompt is "b" alone, not the two
  segments joined by a newline: \<open>content.length - 3\<close> is then -1, and \<open>slice\<close> counts a
  negative start from the end.
\<close>

theorem whisperPrompt_two_segments:
  "whisperPrompt [ascii ''a'', ascii ''b''] = ascii ''b'' \<and>
   js_join [10] [ascii ''a'', ascii ''b''] = ascii ''a'' @ [10] @ ascii ''b'' \<and>
   whisperPrompt [ascii ''a'', ascii ''b''] \<noteq> js_join [10] [ascii ''a'', ascii ''b'']"
  by (simp add: whisperPrompt_def js_slice_def ascii_def)

section \<open>Flushing a chunk\<close>

text \<open>
  C7. Let \<open>startedAt\<close> be \<open>t\<close> (the time of the last flush, or of the first recording
  before any flush) when a data event arrives. If \<open>minChunkDuration\<close> has elapsed, one file
  is emitted that holds all the data buffered since, this event's included, the buffer
  becomes empty and \<open>startedAt\<close> becomes the present time. Otherwise the data is appended to
  the buffer and no file is emitted. The session captures with the default of 5000 ms.
\<close>

theorem onDataAvailable_flush:
  assumes "startedAt c = Some t"
  shows "(minChunkDuration c \<le> now1 - t \<longrightarrow>
            onDataAvailable d now1 now2 c =
              (Some \<lparr>fname = ''meeper_chunk.webm'', ftype = ''audio/webm'',
                     fdata = concat (chunks c @ [d])\<rparr>,
               c\<lparr>chunks := [], startedAt := Some now2\<rparr>)) \<and>
         (now1 - t < minChunkDuration c \<longrightarrow>
            onDataAvailable d now1 now2 c = (None, c\<lparr>chunks := chunks c @ [d]\<rparr>)) \<and>
         minChunkDuration (captureAudio defaultMinChunkDuration) = 5000"
  using assms
  by (simp add: onDataAvailable_def Let_def captureAudio_def defaultMinChunkDuration_def)

theorem onDataAvailable_flush_witness:
  "onDataAvailable [7] 6000 6001 (startRecord 1000 (captureAudio defaultMinChunkDuration)) =
     (Some \<lparr>fname = ''meeper_chunk.webm'', ftype = ''audio/webm'', fdata = [7]\<rparr>,
      (startRecord 1000 (captureAudio defaultMinChunkDuration))
        \<lparr>chunks := [], startedAt := Some 6001\<rparr>) \<and>
   onDataAvailable [7] 5999 6001 (startRecord 1000 (captureAudio defaultMinChunkDuration)) =
     (None, (startRecord 1000 (captureAudio defaultMinChunkDuration))\<lparr>chunks := [[7]]\<rparr>)"
  using
    onDataAvailable_flush
      [of "startRecord 1000 (captureAudio defaultMinChunkDuration)" 1000 6000 "[7]" 6001]
    onDataAvailable_flush
      [of "startRecord 1000 (captureAudio defaultMinChunkDuration)" 1000 5999 "[7]" 6001]
  by (simp add: startRecord_def captureAudio_def recordAudio_def defaultMinChunkDuration_def)

section \<open>start, pause and stop\<close>

lemma active_stopTracks [simp]: "\<not> active (stopTracks st)"
  by (auto simp add: active_def stopTracks_def)

lemma recording_pause [simp]: "\<not> recording (pause s)"
  by (simp add: pause_def dispatch_def)

lemma stream_pause [simp]: "stream (pause s) = stream s"
  by (simp add: pause_def dispatch_def)

lemma recording_stop [simp]: "\<not> recording (stop s)"
  by (simp add: stop_def Let_def)

lemma active_stop [simp]: "\<not> active (stream (stop s))"
  by (simp add: stop_def Let_def)

lemma stop_noop: "\<not> recording s \<Longrightarrow> \<not> active (stream s) \<Longrightarrow> stop s = s"
  by (simp add: stop_def pause_def Let_def)

text \<open>
  C6. \<open>start()\<close> while recording leaves the whole state as it is (the flag, the capture, the
  notifications), and so does \<open>pause()\<close> while not recording; a second \<open>start()\<close> or
  \<open>pause()\<close> changes nothing.
\<close>

theorem start_pause_idempotent:
  "(recording s \<longrightarrow> start s = s) \<and> (\<not> recording s \<longrightarrow> pause s = s) \<and>
   start (start s) = start s \<and> pause (pause s) = pause s"
  by (auto simp add: start_def pause_def dispatch_def)

theorem start_pause_idempotent_witness:
  "recording micSession \<and> start micSession = micSession \<and>
   \<not> recording (pause micSession) \<and> pause (pause micSession) = pause micSession"
  using start_pause_idempotent [of micSession] start_pause_idempotent [of "pause micSession"]
  by (simp add: micSession_def recordMeeper_def checkIsStreamIsActive_def micCheck_def
      isStreamsActive_def initial_def liveStream_def start_def dispatch_def active_def Let_def)

text \<open>
  C10. A second \<open>stop()\<close> changes nothing: after the first one the session is not recording
  and its stream is not active, and \<open>stop()\<close> in such a state, like the \<open>pause()\<close> in it,
  leaves the whole state as it is, the notifications included.
\<close>

theorem stop_twice:
  "stop (stop s) = stop s \<and>
   (\<not> recording s \<and> \<not> active (stream s) \<longrightarrow> stop s = s) \<and>
   pause (stop s) = stop s"
  by (simp add: stop_noop) (simp add: pause_def)

theorem stop_twice_witness:
  "recording micSession \<and>
   \<not> recording (stop micSession) \<and> \<not> active (stream (stop micSession)) \<and>
   stop (stop micSession) = stop micSession \<and>
   length (notifications (stop (stop micSession))) = 2"
  using stop_twice [of "stop micSession"]
  by (simp add: micSession_def recordMeeper_def checkIsStreamIsActive_def micCheck_def
      isStreamsActive_def initial_def liveStream_def start_def stop_def pause_def
      dispatch_def active_def stopTracks_def Let_def)

section \<open>Teardown of a capture\<close>

lemma subscribed_teardown [simp]: "\<not> subscribed (teardown c)"
  by (simp add: teardown_def stopRecorder_def Let_def split: option.splits)

lemma subscribed_step [simp]: "subscribed (snd (capture_step e c)) = subscribed c"
  by (cases e)
    (auto simp add: onSpeechStart_def startRecord_def recordAudio_def onSpeechEnd_def
      fireTimer_def stopRecorder_def onDataAvailable_def Let_def
      split: option.splits list.splits)

lemma emitting_step:
  "fst (capture_step e c) \<noteq> None \<Longrightarrow> \<exists>d now1 now2. e = DataAvailable d now1 now2"
  by (cases e) simp_all

lemma startRecord_startedAt: "startedAt (startRecord now c) \<noteq> None"
  by (simp add: startRecord_def recordAudio_def Let_def)

text \<open>
  C8, as the code has it. The teardown ends the subscription of the speech detector and
  calls the stop function of the present recorder, if there is one. It leaves the pending
  speech-end timeouts as they are, and a timeout that is pending still fires and calls the
  stop function it holds. It leaves the buffer and \<open>startedAt\<close> as they are and flushes
  nothing: after it a speech event changes nothing and a timeout emits nothing, and a
  data event emits what it would have emitted without the teardown.
\<close>

theorem teardown_keeps_timers:
  "\<not> subscribed (teardown c) \<and>
   stopCalls (teardown c) = stopCalls c @ (case stopRecord c of None \<Rightarrow> [] | Some r \<Rightarrow> [r]) \<and>
   timers (teardown c) = timers c \<and>
   (timers c = Some r # ts \<longrightarrow>
      stopCalls (fireTimer (teardown c)) = stopCalls (teardown c) @ [r]) \<and>
   chunks (teardown c) = chunks c \<and>
   startedAt (teardown c) = startedAt c \<and>
   capture_step (SpeechStart now) (teardown c) = (None, teardown c) \<and>
   capture_step SpeechEnd (teardown c) = (None, teardown c) \<and>
   fst (capture_step TimerFired (teardown c)) = None \<and>
   fst (capture_step (DataAvailable d now1 now2) (teardown c)) =
     fst (capture_step (DataAvailable d now1 now2) c)"
proof -
  have "stopCalls (teardown c) = stopCalls c @ (case stopRecord c of None \<Rightarrow> [] | Some r \<Rightarrow> [r]) \<and>
      timers (teardown c) = timers c \<and> chunks (teardown c) = chunks c \<and>
      startedAt (teardown c) = startedAt c"
    by (simp add: teardown_def stopRecorder_def Let_def split: option.splits)
  moreover have "timers c = Some r # ts \<longrightarrow>
      stopCalls (fireTimer (teardown c)) = stopCalls (teardown c) @ [r]"
    by (simp add: teardown_def fireTimer_def stopRecorder_def Let_def split: option.splits)
  moreover have "fst (capture_step (DataAvailable d now1 now2) (teardown c)) =
      fst (capture_step (DataAvailable d now1 now2) c)"
    by (simp add: teardown_def stopRecorder_def onDataAvailable_def Let_def split: option.splits)
  ultimately show ?thesis by simp
qed

theorem teardown_keeps_timers_witness:
  "timers (snd (capture_run [SpeechStart 1000, DataAvailable [1] 2000 2000, SpeechEnd]
     (captureAudio 5000))) = [Some 0] \<and>
   stopCalls (fireTimer (teardown (snd (capture_run
     [SpeechStart 1000, DataAvailable [1] 2000 2000, SpeechEnd] (captureAudio 5000))))) = [0, 0] \<and>
   chunks (teardown (snd (capture_run
     [SpeechStart 1000, DataAvailable [1] 2000 2000, SpeechEnd] (captureAudio 5000)))) = [[1]] \<and>
   fst (capture_step (DataAvailable [2] 3000 3000) (teardown (snd (capture_run
     [SpeechStart 1000, DataAvailable [1] 2000 2000, SpeechEnd] (captureAudio 5000))))) = None"
  using teardown_keeps_timers
    [of "snd (capture_run [SpeechStart 1000, DataAvailable [1] 2000 2000, SpeechEnd]
           (captureAudio 5000))" 0 "[]" 0 "[2]" 3000 3000]
  by (simp add: captureAudio_def onSpeechStart_def startRecord_def recordAudio_def onSpeechEnd_def
      onDataAvailable_def teardown_def stopRecorder_def fireTimer_def Let_def)

text \<open>
  C8 as stated fails. After a speech start, a data event and a speech end, the teardown
  leaves the timeout pending, and when it fires the stop function is called once more.
  The buffered audio is not discarded either: the data the recorder hands over after the
  teardown is flushed together with it and goes to \<open>onAudio\<close>.
\<close>

theorem teardown_timer_counterexample:
  "timers (teardown (snd (capture_run
     [SpeechStart 1000, DataAvailable [1] 2000 2000, SpeechEnd] (captureAudio 5000)))) = [Some 0] \<and>
   stopCalls (teardown (snd (capture_run
     [SpeechStart 1000, DataAvailable [1] 2000 2000, SpeechEnd] (captureAudio 5000)))) = [0] \<and>
   stopCalls (snd (capture_step TimerFired (teardown (snd (capture_run
     [SpeechStart 1000, DataAvailable [1] 2000 2000, SpeechEnd] (captureAudio 5000)))))) = [0, 0] \<and>
   chunks (teardown (snd (capture_run
     [SpeechStart 1000, DataAvailable [1] 2000 2000, SpeechEnd] (captureAudio 5000)))) = [[1]] \<and>
   fst (capture_step (DataAvailable [2] 6030 6030) (teardown (snd (capture_run
     [SpeechStart 1000, DataAvailable [1] 2000 2000, SpeechEnd] (captureAudio 5000))))) =
     Some \<lparr>fname = ''meeper_chunk.webm'', ftype = ''audio/webm'', fdata = [1, 2]\<rparr>"
  by (simp add: captureAudio_def onSpeechStart_def startRecord_def recordAudio_def onSpeechEnd_def
      onDataAvailable_def teardown_def stopRecorder_def fireTimer_def)

section \<open>Invariants of the session\<close>

lemma queueTask_eq:
  "queueTask p s =
     Inr (case p of
            Inl e \<Rightarrow> s\<lparr>console := console s @ [e]\<rparr>
          | Inr t \<Rightarrow> if t = [] then s
                    else persist (dispatch (s\<lparr>content := mergeText (content s) t\<rparr>)))"
  by (simp add: queueTask_def taskBody_def catchLog_def split: sum.splits)

lemma queueTask_content:
  "queueTask (textPromise svc c) s = Inr s' \<Longrightarrow>
     content s' = applyText (content s) (settledText svc c)"
  by (auto simp add: queueTask_eq settledText_def applyText_def persist_def dispatch_def
      split: sum.splits)

lemma queueTask_frame:
  "queueTask p s = Inr s' \<Longrightarrow>
     recording s' = recording s \<and> stream s' = stream s \<and> polling s' = polling s \<and>
     stopCaptureAudio s' = stopCaptureAudio s \<and> created s' = created s \<and>
     tabCaptureStream s' = tabCaptureStream s \<and> micStream s' = micStream s \<and>
     awaitingLang s' = awaitingLang s \<and> enqueued s' = enqueued s"
  by (auto simp add: queueTask_eq persist_def dispatch_def split: sum.splits if_splits)

lemma drain_frame:
  "recording (snd (drain svc js s)) = recording s \<and>
   stream (snd (drain svc js s)) = stream s \<and>
   polling (snd (drain svc js s)) = polling s \<and>
   stopCaptureAudio (snd (drain svc js s)) = stopCaptureAudio s \<and>
   created (snd (drain svc js s)) = created s \<and>
   tabCaptureStream (snd (drain svc js s)) = tabCaptureStream s \<and>
   micStream (snd (drain svc js s)) = micStream s \<and>
   awaitingLang (snd (drain svc js s)) = awaitingLang s \<and>
   enqueued (snd (drain svc js s)) = enqueued s"
proof (induction js arbitrary: s)
  case Nil
  then show ?case by simp
next
  case (Cons j js)
  show ?case
  proof (cases "jobSettled j")
    case False
    then show ?thesis by simp
  next
    case True
    obtain s' where q: "queueTask (textPromise svc (jobChunk j)) s = Inr s'"
      by (simp add: queueTask_eq)
    with True have "drain svc (j # js) s = drain svc js s'" by simp
    with Cons.IH [of s'] queueTask_frame [OF q] show ?thesis by simp
  qed
qed

lemma settle_frame:
  "recording (settle svc c s) = recording s \<and> stream (settle svc c s) = stream s \<and>
   polling (settle svc c s) = polling s \<and>
   stopCaptureAudio (settle svc c s) = stopCaptureAudio s \<and>
   created (settle svc c s) = created s \<and>
   awaitingLang (settle svc c s) = awaitingLang s \<and> enqueued (settle svc c s) = enqueued s"
  using drain_frame
    [of svc "map (\<lambda>j. if jobChunk j = c then j\<lparr>jobSettled := True\<rparr> else j) (queue s)"
        "s\<lparr>queue := map (\<lambda>j. if jobChunk j = c then j\<lparr>jobSettled := True\<rparr> else j) (queue s)\<rparr>"]
  by (simp add: settle_def runQueue_def split_beta)

lemma langResolved_frame:
  "recording (langResolved c l s) = recording s \<and> stream (langResolved c l s) = stream s \<and>
   polling (langResolved c l s) = polling s \<and>
   stopCaptureAudio (langResolved c l s) = stopCaptureAudio s \<and>
   created (langResolved c l s) = created s"
  by (simp add: langResolved_def split: option.splits)

lemma session_inv_iff:
  "session_inv s \<longleftrightarrow>
     (stopCaptureAudio s = None \<and> \<not> recording s) \<or>
     (\<exists>c. stopCaptureAudio s = Some c \<and> (recording s \<or> \<not> subscribed c))"
  by (auto simp add: session_inv_def split: option.splits)

lemma session_inv_pause: "session_inv s \<Longrightarrow> session_inv (pause s)"
  by (auto simp add: session_inv_iff pause_def dispatch_def)

lemma session_inv_start: "session_inv s \<Longrightarrow> session_inv (start s)"
  by (simp add: session_inv_iff start_def dispatch_def)

lemma session_inv_stop: "session_inv s \<Longrightarrow> session_inv (stop s)"
  using session_inv_pause [of s] by (simp add: stop_def Let_def session_inv_iff)

lemma session_inv_reacquire: "session_inv s \<Longrightarrow> session_inv (reacquire r m s)"
proof (cases r)
  case (Inl e)
  assume "session_inv s"
  with Inl show ?thesis by (simp add: reacquire_def session_inv_iff)
next
  case (Inr n)
  assume a: "session_inv s"
  have f: "\<And>x. session_inv x \<Longrightarrow> session_inv (x\<lparr>micStream := Some n, stream := m\<rparr>)"
    by (simp add: session_inv_iff)
  have d: "\<And>x. session_inv x \<Longrightarrow> session_inv (dispatch x)"
    by (simp add: session_inv_iff dispatch_def)
  from Inr a show ?thesis
    by (simp add: reacquire_def Let_def f d session_inv_start session_inv_pause)
qed

lemma session_inv_check: "session_inv s \<Longrightarrow> session_inv (checkIsStreamIsActive r m s)"
proof -
  assume a: "session_inv s"
  define s1 where "s1 = micCheck r m s"
  have i1: "session_inv s1"
    using a by (simp add: s1_def micCheck_def session_inv_reacquire split: option.splits)
  have "session_inv ((dispatch (stop s1))\<lparr>polling := False\<rparr>)"
    using session_inv_stop [OF i1] by (simp add: session_inv_iff dispatch_def)
  moreover have "session_inv (s1\<lparr>polling := True\<rparr>)"
    using i1 by (simp add: session_inv_iff)
  ultimately show ?thesis
    by (simp add: checkIsStreamIsActive_def Let_def s1_def [symmetric])
qed

lemma session_inv_captureEvent: "session_inv s \<Longrightarrow> session_inv (captureEvent e s)"
proof (cases "stopCaptureAudio s")
  case None
  assume "session_inv s"
  with None show ?thesis by (simp add: captureEvent_def)
next
  case (Some c)
  assume a: "session_inv s"
  obtain fo c1 where st: "capture_step e c = (fo, c1)" by (cases "capture_step e c")
  have sub: "recording s \<or> \<not> subscribed c1"
    using a Some subscribed_step [of e c] st by (auto simp add: session_inv_iff)
  from Some st sub show ?thesis
    by (cases fo) (auto simp add: captureEvent_def session_inv_iff onAudio_def)
qed

lemma session_inv_step: "session_inv s \<Longrightarrow> session_inv (step svc e s)"
proof (cases e)
  case (Settled c)
  assume "session_inv s"
  with Settled show ?thesis by (simp add: session_inv_iff settle_frame)
next
  case (LangResolved c l)
  assume "session_inv s"
  with LangResolved show ?thesis by (simp add: session_inv_iff langResolved_frame)
next
  case (TracksEnded src)
  assume "session_inv s"
  with TracksEnded show ?thesis by (cases src) (simp_all add: session_inv_iff tracksEnded_def)
qed (simp_all add: session_inv_start session_inv_pause session_inv_stop session_inv_check
      session_inv_captureEvent)

lemma session_inv_run: "session_inv s \<Longrightarrow> session_inv (run svc es s)"
  by (induction es arbitrary: s) (simp_all add: session_inv_step)

lemma session_inv_recordMeeper: "session_inv (recordMeeper tab mic merged r m)"
  unfolding recordMeeper_def
  by (rule session_inv_check, rule session_inv_start) (simp add: session_inv_iff initial_def)

section \<open>The health monitor\<close>

lemma session_inv_micCheck: "session_inv s \<Longrightarrow> session_inv (micCheck r m s)"
  by (simp add: micCheck_def session_inv_reacquire split: option.splits)

lemma stopped_iff:
  "stopped s \<longleftrightarrow>
     \<not> recording s \<and> \<not> active (stream s) \<and> \<not> polling s \<and>
     (stopCaptureAudio s = None \<or> (\<exists>c. stopCaptureAudio s = Some c \<and> \<not> subscribed c))"
  by (auto simp add: stopped_def split: option.splits)

lemma pause_unsubscribed:
  "session_inv s \<Longrightarrow>
     stopCaptureAudio (pause s) = None \<or>
     (\<exists>c. stopCaptureAudio (pause s) = Some c \<and> \<not> subscribed c)"
  by (auto simp add: session_inv_iff pause_def dispatch_def)

lemma stop_stopped:
  assumes "session_inv s"
  shows "stopped ((dispatch (stop s))\<lparr>polling := False\<rparr>)"
proof -
  have c: "stopCaptureAudio (stop s) = stopCaptureAudio (pause s)"
    by (simp add: stop_def Let_def)
  show ?thesis
    using pause_unsubscribed [OF assms] by (simp add: stopped_iff dispatch_def c)
qed

lemma stopped_captureEvent:
  assumes "stopped s"
  shows "stopped (captureEvent e s) \<and>
         (\<not> dataEvent (Capture e) \<longrightarrow> created (captureEvent e s) = created s)"
proof (cases "stopCaptureAudio s")
  case None
  with assms show ?thesis by (simp add: captureEvent_def)
next
  case (Some c)
  with assms have u: "\<not> subscribed c" by (simp add: stopped_iff)
  then have u': "\<not> subscribed (snd (capture_step e c))" by simp
  have st: "stopped (captureEvent e s)"
    using assms Some u'
    by (cases "fst (capture_step e c)")
      (simp_all add: captureEvent_def stopped_iff split_beta Let_def onAudio_def)
  have "\<not> dataEvent (Capture e) \<longrightarrow> created (captureEvent e s) = created s"
  proof
    assume "\<not> dataEvent (Capture e)"
    then have "\<not> (\<exists>d now1 now2. e = DataAvailable d now1 now2)" by auto
    then have "fst (capture_step e c) = None" using emitting_step [of e c] by blast
    with Some show "created (captureEvent e s) = created s"
      by (simp add: captureEvent_def split_beta Let_def)
  qed
  with st show ?thesis by simp
qed

lemma stopped_step:
  assumes "stopped s"
  shows "stopped (step svc e s) \<and> (\<not> dataEvent e \<longrightarrow> created (step svc e s) = created s)"
proof (cases e)
  case Start
  with assms show ?thesis by (simp add: stopped_iff start_def)
next
  case Pause
  with assms show ?thesis by (simp add: stopped_iff pause_def)
next
  case Stop
  with assms show ?thesis by (simp add: stopped_iff stop_noop)
next
  case (Poll r m)
  with assms show ?thesis by (simp add: stopped_iff)
next
  case (Capture ce)
  with stopped_captureEvent [OF assms, of ce] show ?thesis by simp
next
  case (TracksEnded src)
  with assms show ?thesis by (cases src) (simp_all add: stopped_iff tracksEnded_def)
next
  case (LangResolved c l)
  with assms show ?thesis by (simp add: stopped_iff langResolved_frame)
next
  case (Settled c)
  with assms show ?thesis by (simp add: stopped_iff settle_frame)
qed

lemma stopped_run:
  "stopped s \<Longrightarrow>
     stopped (run svc es s) \<and>
     (\<not> list_ex dataEvent es \<longrightarrow> created (run svc es s) = created s)"
proof (induction es arbitrary: s)
  case Nil
  then show ?case by simp
next
  case (Cons e es)
  from stopped_step [OF Cons.prems, of svc e] Cons.IH [of "step svc e s"]
  show ?case by simp
qed

lemma tab_micCheck [simp]: "tabCaptureStream (micCheck r m s) = tabCaptureStream s"
  by (auto simp add: micCheck_def reacquire_def start_def pause_def dispatch_def Let_def
      split: option.splits sum.splits)

lemma check_stop:
  "\<not> isStreamsActive (micCheck r m s) \<Longrightarrow>
     checkIsStreamIsActive r m s = (dispatch (stop (micCheck r m s)))\<lparr>polling := False\<rparr>"
  by (simp add: checkIsStreamIsActive_def Let_def)

text \<open>
  C5, as the code has it. Let the tab stream be inactive when the health monitor polls,
  whatever the state of the microphone and the outcome of its re-acquisition. The poll
  then ends in a full stop: \<open>stop()\<close> and a last notification. Afterwards the session is not
  recording, every track of its merged stream is ended, the last notification says so, no
  poll is pending (a poll event changes nothing) and the speech detector of its capture
  is not subscribed. Whatever events follow, the session never records again, and as long
  as no recorder hands over data, no further chunk reaches \<open>onAudio\<close>.
\<close>

theorem tab_loss_stops:
  assumes "session_inv s" and "tabCaptureStream s = Some t" and "\<not> active t"
  shows "checkIsStreamIsActive r m s = (dispatch (stop (micCheck r m s)))\<lparr>polling := False\<rparr> \<and>
         \<not> recording (checkIsStreamIsActive r m s) \<and>
         True \<notin> set (tracks (stream (checkIsStreamIsActive r m s))) \<and>
         notifications (checkIsStreamIsActive r m s) =
           notifications (stop (micCheck r m s)) @ [(False, content (checkIsStreamIsActive r m s))] \<and>
         \<not> polling (checkIsStreamIsActive r m s) \<and>
         step svc (Poll r' m') (checkIsStreamIsActive r m s) = checkIsStreamIsActive r m s \<and>
         (stopCaptureAudio (checkIsStreamIsActive r m s) = Some c \<longrightarrow> \<not> subscribed c) \<and>
         \<not> recording (run svc es (checkIsStreamIsActive r m s)) \<and>
         (\<not> list_ex dataEvent es \<longrightarrow>
            created (run svc es (checkIsStreamIsActive r m s)) =
              created (checkIsStreamIsActive r m s))"
proof -
  have "\<not> isStreamsActive (micCheck r m s)"
    using assms(2,3) by (simp add: isStreamsActive_def)
  then have eq: "checkIsStreamIsActive r m s = (dispatch (stop (micCheck r m s)))\<lparr>polling := False\<rparr>"
    by (rule check_stop)
  have st: "stopped (checkIsStreamIsActive r m s)"
    unfolding eq by (rule stop_stopped) (rule session_inv_micCheck [OF assms(1)])
  have "True \<notin> set (tracks (stream (checkIsStreamIsActive r m s)))"
    using st by (simp add: stopped_iff active_def)
  moreover have "notifications (checkIsStreamIsActive r m s) =
           notifications (stop (micCheck r m s)) @ [(False, content (checkIsStreamIsActive r m s))]"
    by (simp add: eq dispatch_def)
  moreover have "step svc (Poll r' m') (checkIsStreamIsActive r m s) = checkIsStreamIsActive r m s"
    using st by (simp add: stopped_iff)
  moreover have "stopCaptureAudio (checkIsStreamIsActive r m s) = Some c \<longrightarrow> \<not> subscribed c"
    using st by (auto simp add: stopped_iff)
  ultimately show ?thesis
    using eq st stopped_run [OF st, of svc es] by (simp add: stopped_iff)
qed

theorem tab_loss_stops_witness:
  "session_inv (run exampleService [TracksEnded Tab] tabMicSession) \<and>
   tabCaptureStream (run exampleService [TracksEnded Tab] tabMicSession) = Some (stopTracks liveStream) \<and>
   \<not> active (stopTracks liveStream) \<and>
   recording (run exampleService [TracksEnded Tab] tabMicSession) \<and>
   \<not> recording (checkIsStreamIsActive (Inl NoStreamError) liveStream
      (run exampleService [TracksEnded Tab] tabMicSession)) \<and>
   \<not> polling (checkIsStreamIsActive (Inl NoStreamError) liveStream
      (run exampleService [TracksEnded Tab] tabMicSession)) \<and>
   created (run exampleService
      [Start, Capture (SpeechStart 1000), Capture SpeechEnd, Capture TimerFired, Stop]
      (checkIsStreamIsActive (Inl NoStreamError) liveStream
        (run exampleService [TracksEnded Tab] tabMicSession))) = 0 \<and>
   session_inv (run exampleService [TracksEnded Tab, TracksEnded Mic] tabMicSession) \<and>
   micStream (checkIsStreamIsActive (Inr liveStream) liveStream
      (run exampleService [TracksEnded Tab, TracksEnded Mic] tabMicSession)) = Some liveStream \<and>
   \<not> recording (checkIsStreamIsActive (Inr liveStream) liveStream
      (run exampleService [TracksEnded Tab, TracksEnded Mic] tabMicSession)) \<and>
   \<not> polling (checkIsStreamIsActive (Inr liveStream) liveStream
      (run exampleService [TracksEnded Tab, TracksEnded Mic] tabMicSession))"
  using tab_loss_stops
    [of "run exampleService [TracksEnded Tab] tabMicSession" "stopTracks liveStream"
        "Inl NoStreamError" liveStream exampleService "Inl NoStreamError" liveStream
        "teardown (captureAudio defaultMinChunkDuration)"
        "[Start, Capture (SpeechStart 1000), Capture SpeechEnd, Capture TimerFired, Stop]"]
    tab_loss_stops
    [of "run exampleService [TracksEnded Tab, TracksEnded Mic] tabMicSession"
        "stopTracks liveStream" "Inr liveStream" liveStream exampleService
        "Inl NoStreamError" liveStream "teardown (captureAudio defaultMinChunkDuration)" "[]"]
  by (simp add: tabMicSession_def recordMeeper_def initial_def liveStream_def start_def
      dispatch_def active_def tracksEnded_def stopTracks_def session_inv_iff
      checkIsStreamIsActive_def micCheck_def isStreamsActive_def
      reacquire_def teardown_def captureAudio_def stop_def pause_def Let_def)

text \<open>
  C5 as stated fails. A session on a tab and the microphone has buffered one data event
  when the tab stream ends. After the poll the session is stopped, but the track of the
  microphone stream is still live: \<open>stop()\<close> ends the tracks of the merged stream only.
  And the data the stopped recorder hands over next is flushed with the buffered data:
  one more chunk reaches \<open>onAudio\<close>.
\<close>

theorem tab_loss_counterexample:
  "\<not> recording (run exampleService
      [Capture (SpeechStart 1000), Capture (DataAvailable [1] 2000 2000), TracksEnded Tab,
       Poll (Inl NoStreamError) liveStream] tabMicSession) \<and>
   \<not> polling (run exampleService
      [Capture (SpeechStart 1000), Capture (DataAvailable [1] 2000 2000), TracksEnded Tab,
       Poll (Inl NoStreamError) liveStream] tabMicSession) \<and>
   micStream (run exampleService
      [Capture (SpeechStart 1000), Capture (DataAvailable [1] 2000 2000), TracksEnded Tab,
       Poll (Inl NoStreamError) liveStream] tabMicSession) = Some \<lparr>tracks = [True]\<rparr> \<and>
   active \<lparr>tracks = [True]\<rparr> \<and>
   created (run exampleService
      [Capture (SpeechStart 1000), Capture (DataAvailable [1] 2000 2000), TracksEnded Tab,
       Poll (Inl NoStreamError) liveStream] tabMicSession) = 0 \<and>
   created (run exampleService
      [Capture (SpeechStart 1000), Capture (DataAvailable [1] 2000 2000), TracksEnded Tab,
       Poll (Inl NoStreamError) liveStream,
       Capture (DataAvailable [2] 6030 6030)] tabMicSession) = 1 \<and>
   map lkFile (awaitingLang (run exampleService
      [Capture (SpeechStart 1000), Capture (DataAvailable [1] 2000 2000), TracksEnded Tab,
       Poll (Inl NoStreamError) liveStream,
       Capture (DataAvailable [2] 6030 6030)] tabMicSession)) =
     [\<lparr>fname = ''meeper_chunk.webm'', ftype = ''audio/webm'', fdata = [1, 2]\<rparr>]"
  by (simp add: tabMicSession_def recordMeeper_def initial_def liveStream_def start_def
      dispatch_def active_def tracksEnded_def stopTracks_def checkIsStreamIsActive_def
      micCheck_def isStreamsActive_def stop_def pause_def teardown_def stopRecorder_def
      captureAudio_def defaultMinChunkDuration_def captureEvent_def onSpeechStart_def
      startRecord_def recordAudio_def onDataAvailable_def onAudio_def Let_def)

lemma console_stop [simp]: "console (stop s) = console s"
  by (simp add: stop_def pause_def dispatch_def Let_def)

text \<open>
  C4, as the code has it. Let the microphone stream be inactive when the health monitor
  polls, and let its re-acquisition fail. The failure is logged, and the microphone being
  still inactive, the same poll ends in a full stop: the session is not recording, its
  stream is not active and no poll is pending, so the re-acquisition is not tried again.
\<close>

theorem mic_reacquire_failure_stops:
  assumes "micStream s = Some x" and "\<not> active x"
  shows "checkIsStreamIsActive (Inl e) m s =
           (dispatch (stop (s\<lparr>console := console s @ [e]\<rparr>)))\<lparr>polling := False\<rparr> \<and>
         console (checkIsStreamIsActive (Inl e) m s) = console s @ [e] \<and>
         \<not> recording (checkIsStreamIsActive (Inl e) m s) \<and>
         \<not> active (stream (checkIsStreamIsActive (Inl e) m s)) \<and>
         \<not> polling (checkIsStreamIsActive (Inl e) m s) \<and>
         step svc (Poll r' m') (checkIsStreamIsActive (Inl e) m s) =
           checkIsStreamIsActive (Inl e) m s"
proof -
  have mc: "micCheck (Inl e) m s = s\<lparr>console := console s @ [e]\<rparr>"
    using assms by (simp add: micCheck_def reacquire_def)
  have "\<not> isStreamsActive (micCheck (Inl e) m s)"
    using assms by (simp add: mc isStreamsActive_def)
  then have eq: "checkIsStreamIsActive (Inl e) m s =
      (dispatch (stop (s\<lparr>console := console s @ [e]\<rparr>)))\<lparr>polling := False\<rparr>"
    using check_stop [of "Inl e" m s] by (simp add: mc)
  show ?thesis
    unfolding eq by (simp add: dispatch_def)
qed

theorem mic_reacquire_failure_stops_witness:
  "micStream (run exampleService [TracksEnded Mic] tabMicSession) = Some (stopTracks liveStream) \<and>
   \<not> active (stopTracks liveStream) \<and>
   console (checkIsStreamIsActive (Inl NoStreamError) liveStream
      (run exampleService [TracksEnded Mic] tabMicSession)) = [NoStreamError] \<and>
   \<not> recording (checkIsStreamIsActive (Inl NoStreamError) liveStream
      (run exampleService [TracksEnded Mic] tabMicSession))"
  using mic_reacquire_failure_stops
    [of "run exampleService [TracksEnded Mic] tabMicSession" "stopTracks liveStream"
        NoStreamError liveStream exampleService "Inl NoStreamError" liveStream]
  by (simp add: tabMicSession_def recordMeeper_def checkIsStreamIsActive_def micCheck_def
      isStreamsActive_def initial_def liveStream_def start_def dispatch_def active_def
      tracksEnded_def stopTracks_def Let_def)

text \<open>
  C4 as stated fails: a session on the microphone alone is recording, the microphone ends
  and its re-acquisition fails; the poll leaves the session stopped with no poll pending,
  and a later poll or \<open>start()\<close> changes nothing.
\<close>

theorem mic_reacquire_failure_counterexample:
  "recording (run exampleService [TracksEnded Mic] micSession) \<and>
   polling (run exampleService [TracksEnded Mic] micSession) \<and>
   tabCaptureStream (run exampleService [TracksEnded Mic] micSession) = None \<and>
   \<not> recording (run exampleService [TracksEnded Mic, Poll (Inl NoStreamError) liveStream] micSession) \<and>
   \<not> polling (run exampleService [TracksEnded Mic, Poll (Inl NoStreamError) liveStream] micSession) \<and>
   run exampleService [TracksEnded Mic, Poll (Inl NoStreamError) liveStream,
       Poll (Inr liveStream) liveStream, Start] micSession =
     run exampleService [TracksEnded Mic, Poll (Inl NoStreamError) liveStream] micSession"
  by (simp add: micSession_def recordMeeper_def initial_def liveStream_def start_def
      dispatch_def active_def tracksEnded_def stopTracks_def checkIsStreamIsActive_def
      micCheck_def reacquire_def isStreamsActive_def stop_def pause_def teardown_def
      captureAudio_def Let_def)

section \<open>Order of the transcript\<close>

lemma same_pipeline_refl [simp]: "same_pipeline s s"
  by (simp add: same_pipeline_def)

lemma same_pipeline_trans:
  "same_pipeline s2 s1 \<Longrightarrow> same_pipeline s1 s \<Longrightarrow> same_pipeline s2 s"
  by (simp add: same_pipeline_def)

lemma same_pipeline_dispatch [simp]: "same_pipeline (dispatch s) s"
  by (simp add: same_pipeline_def dispatch_def)

lemma same_pipeline_start [simp]: "same_pipeline (start s) s"
  by (simp add: same_pipeline_def start_def dispatch_def)

lemma same_pipeline_pause [simp]: "same_pipeline (pause s) s"
  by (simp add: same_pipeline_def pause_def dispatch_def)

lemma same_pipeline_stop [simp]: "same_pipeline (stop s) s"
  by (simp add: same_pipeline_def stop_def pause_def dispatch_def Let_def)

lemma same_pipeline_reacquire [simp]: "same_pipeline (reacquire r m s) s"
  by (cases r)
    (simp_all add: same_pipeline_def reacquire_def start_def pause_def dispatch_def Let_def)

lemma same_pipeline_micCheck [simp]: "same_pipeline (micCheck r m s) s"
  by (simp add: micCheck_def split: option.splits)

lemma same_pipeline_check [simp]: "same_pipeline (checkIsStreamIsActive r m s) s"
proof -
  have "same_pipeline ((dispatch (stop (micCheck r m s)))\<lparr>polling := False\<rparr>) s"
    using same_pipeline_micCheck [of r m s] same_pipeline_stop [of "micCheck r m s"]
    by (simp add: same_pipeline_def dispatch_def)
  moreover have "same_pipeline ((micCheck r m s)\<lparr>polling := True\<rparr>) s"
    using same_pipeline_micCheck [of r m s] by (simp add: same_pipeline_def)
  ultimately show ?thesis
    by (simp add: checkIsStreamIsActive_def Let_def)
qed

lemma same_pipeline_tracksEnded [simp]: "same_pipeline (tracksEnded src s) s"
  by (cases src) (simp_all add: same_pipeline_def tracksEnded_def)

lemma queue_inv_cong: "same_pipeline s' s \<Longrightarrow> queue_inv svc s' = queue_inv svc s"
  by (simp add: same_pipeline_def queue_inv_def)

lemma fifo_inv_cong: "same_pipeline s' s \<Longrightarrow> fifo_inv s' = fifo_inv s"
  by (simp add: same_pipeline_def fifo_inv_def)

lemmas queue_inv_frames =
  queue_inv_cong [OF same_pipeline_start] queue_inv_cong [OF same_pipeline_pause]
  queue_inv_cong [OF same_pipeline_stop] queue_inv_cong [OF same_pipeline_check]
  queue_inv_cong [OF same_pipeline_tracksEnded]

lemmas fifo_inv_frames =
  fifo_inv_cong [OF same_pipeline_start] fifo_inv_cong [OF same_pipeline_pause]
  fifo_inv_cong [OF same_pipeline_stop] fifo_inv_cong [OF same_pipeline_check]
  fifo_inv_cong [OF same_pipeline_tracksEnded]

lemma drain_transcript:
  "foldl applyText (content (snd (drain svc js s)))
     (map (\<lambda>j. settledText svc (jobChunk j)) (fst (drain svc js s))) =
   foldl applyText (content s) (map (\<lambda>j. settledText svc (jobChunk j)) js)"
proof (induction js arbitrary: s)
  case Nil
  then show ?case by simp
next
  case (Cons j js)
  show ?case
  proof (cases "jobSettled j")
    case False
    then show ?thesis by simp
  next
    case True
    obtain s' where q: "queueTask (textPromise svc (jobChunk j)) s = Inr s'"
      by (simp add: queueTask_eq)
    with True have d: "drain svc (j # js) s = drain svc js s'" by simp
    show ?thesis
      unfolding d using Cons.IH [of s'] queueTask_content [OF q] by simp
  qed
qed

lemma queue_inv_settle: "queue_inv svc s \<Longrightarrow> queue_inv svc (settle svc c s)"
proof -
  assume a: "queue_inv svc s"
  define q where "q = map (\<lambda>j. if jobChunk j = c then j\<lparr>jobSettled := True\<rparr> else j) (queue s)"
  have m: "map (\<lambda>j. settledText svc (jobChunk j)) q = map (\<lambda>j. settledText svc (jobChunk j)) (queue s)"
    by (simp add: q_def)
  have e: "enqueued (snd (drain svc q (s\<lparr>queue := q\<rparr>))) = enqueued s"
    using drain_frame [of svc q "s\<lparr>queue := q\<rparr>"] by simp
  have "foldl applyText (content (snd (drain svc q (s\<lparr>queue := q\<rparr>))))
     (map (\<lambda>j. settledText svc (jobChunk j)) (fst (drain svc q (s\<lparr>queue := q\<rparr>)))) =
     foldl applyText (content s) (map (\<lambda>j. settledText svc (jobChunk j)) (queue s))"
    using drain_transcript [of svc q "s\<lparr>queue := q\<rparr>"] by (simp add: m)
  with a e show ?thesis
    by (simp add: queue_inv_def settle_def runQueue_def split_beta q_def [symmetric])
qed

lemma queue_inv_langResolved: "queue_inv svc s \<Longrightarrow> queue_inv svc (langResolved c l s)"
  by (simp add: queue_inv_def langResolved_def split: option.splits)

lemma same_pipeline_captureEvent:
  "content (captureEvent e s) = content s \<and> queue (captureEvent e s) = queue s \<and>
   enqueued (captureEvent e s) = enqueued s"
  by (simp add: captureEvent_def onAudio_def split_beta Let_def split: option.splits)

lemma queue_inv_step: "queue_inv svc s \<Longrightarrow> queue_inv svc (step svc e s)"
proof (cases e)
  case (Capture ce)
  assume "queue_inv svc s"
  with Capture show ?thesis by (simp add: queue_inv_def same_pipeline_captureEvent)
qed (simp_all add: queue_inv_settle queue_inv_langResolved queue_inv_frames)

lemma queue_inv_run: "queue_inv svc s \<Longrightarrow> queue_inv svc (run svc es s)"
  by (induction es arbitrary: s) (simp_all add: queue_inv_step)

lemma queue_inv_initial: "queue_inv svc (initial tab mic merged)"
  by (simp add: queue_inv_def initial_def)

lemma fifo_inv_initial: "fifo_inv (initial tab mic merged)"
  by (simp add: fifo_inv_def initial_def)

lemma fifo_inv_onAudio: "fifo_inv s \<Longrightarrow> fifo_inv (onAudio f s)"
  by (simp add: fifo_inv_def onAudio_def)

lemma fifo_inv_captureEvent: "fifo_inv s \<Longrightarrow> fifo_inv (captureEvent e s)"
proof (cases "stopCaptureAudio s")
  case None
  assume "fifo_inv s"
  with None show ?thesis by (simp add: captureEvent_def)
next
  case (Some c)
  assume a: "fifo_inv s"
  have b: "\<And>c1. fifo_inv (s\<lparr>stopCaptureAudio := Some c1\<rparr>)"
    using a by (simp add: fifo_inv_def)
  show ?thesis
    by (simp add: captureEvent_def Some split_beta Let_def b fifo_inv_onAudio split: option.splits)
qed

lemma fifo_inv_langResolved:
  assumes "fifo_inv s" and "awaitingLang s = x # xs" and "lkChunk x = c"
  shows "fifo_inv (langResolved c l s)"
proof -
  have "distinct (enqueued s @ map lkChunk (awaitingLang s))"
    using assms(1) by (simp add: fifo_inv_def)
  then have "c \<notin> lkChunk ` set xs"
    using assms(2,3) by auto
  then have "filter (\<lambda>l. lkChunk l \<noteq> c) xs = xs"
    by (auto simp add: filter_id_conv)
  then show ?thesis
    using assms by (simp add: fifo_inv_def langResolved_def)
qed

lemma fifo_inv_step:
  assumes "fifo_inv s" and "langFifo svc [e] s"
  shows "fifo_inv (step svc e s)"
proof (cases e)
  case (LangResolved c l)
  with assms(2) obtain x xs where "awaitingLang s = x # xs" and "lkChunk x = c"
    by (auto split: list.splits)
  with assms(1) LangResolved show ?thesis
    by (simp add: fifo_inv_langResolved)
next
  case (Settled c)
  with assms(1) show ?thesis by (simp add: fifo_inv_def settle_frame)
next
  case (Capture ce)
  with assms(1) show ?thesis by (simp add: fifo_inv_captureEvent)
qed (use assms(1) in \<open>simp_all add: fifo_inv_frames\<close>)

lemma fifo_inv_run: "fifo_inv s \<Longrightarrow> langFifo svc es s \<Longrightarrow> fifo_inv (run svc es s)"
proof (induction es arbitrary: s)
  case Nil
  then show ?case by simp
next
  case (Cons e es)
  from Cons.prems have "fifo_inv (step svc e s)"
    by (intro fifo_inv_step) simp_all
  with Cons show ?case by simp
qed

lemma transcript_enqueue_order:
  assumes "queue_inv svc s" and "queue (run svc es s) = []"
  shows "content (run svc es s) =
           foldl applyText [] (map (settledText svc) (enqueued (run svc es s)))"
  using queue_inv_run [OF assms(1), of es] assms(2) by (simp add: queue_inv_def)

lemma transcript_creation_order:
  assumes "queue_inv svc s" and "fifo_inv s" and "langFifo svc es s"
    and "queue (run svc es s) = []" and "awaitingLang (run svc es s) = []"
  shows "content (run svc es s) =
           foldl applyText [] (map (settledText svc) [0..<created (run svc es s)])"
proof -
  have "enqueued (run svc es s) = [0..<created (run svc es s)]"
    using fifo_inv_run [OF assms(2,3)] assms(5) by (simp add: fifo_inv_def)
  with transcript_enqueue_order [OF assms(1,4)] show ?thesis by simp
qed

text \<open>The definitions that evaluate a run of the example session.\<close>

lemmas eval_defs =
  micSession_def recordMeeper_def checkIsStreamIsActive_def micCheck_def isStreamsActive_def
  initial_def liveStream_def start_def dispatch_def active_def captureEvent_def onSpeechStart_def startRecord_def recordAudio_def onDataAvailable_def
  captureAudio_def defaultMinChunkDuration_def onAudio_def whisperPrompt_def js_slice_def
  langResolved_def requestLanguage_def settle_def runQueue_def textPromise_def retry_def
  queueTask_eq persist_def mergeText_def lastItem_def exampleService_def ascii_def Let_def
  js_trim_def isWhiteSpace_def js_endsWith_def threeDots_def

text \<open>
  C1 fails on the code. Two chunks are created in the order 0, 1, and \<open>getLangCode()\<close>
  resolves for chunk 1 before it resolves for chunk 0: the task of chunk 1 enters the
  queue first, and the transcript is "second", "first", though the request of chunk 0
  settles first. With the lookups resolving in the order of the chunks the transcript is
  "first", "second", though the request of chunk 1 settles first.
\<close>

theorem lookup_order_decides:
  "content (run exampleService
      [Capture (SpeechStart 1000), Capture (DataAvailable [1] 6000 6000),
       Capture (DataAvailable [2] 11000 11000),
       LangResolved 1 (ascii ''auto''), LangResolved 0 (ascii ''auto''),
       Settled 0, Settled 1] micSession) = [ascii ''second'', ascii ''first''] \<and>
   content (run exampleService
      [Capture (SpeechStart 1000), Capture (DataAvailable [1] 6000 6000),
       Capture (DataAvailable [2] 11000 11000),
       LangResolved 0 (ascii ''auto''), LangResolved 1 (ascii ''auto''),
       Settled 1, Settled 0] micSession) = [ascii ''first'', ascii ''second'']"
  by (simp add: eval_defs)

section \<open>Bounded retry\<close>

lemma retry_from_success:
  "(\<forall>j<k. isl (fn (i + j))) \<Longrightarrow> fn (i + k) = Inr v \<Longrightarrow> k \<le> n \<Longrightarrow> retry_from fn i n = Inr v"
proof (induction n arbitrary: i k)
  case 0
  then show ?case by simp
next
  case (Suc n)
  show ?case
  proof (cases k)
    case 0
    with Suc.prems show ?thesis by simp
  next
    case (Suc k')
    from Suc.prems(1) Suc have "isl (fn i)" by force
    then obtain e where e: "fn i = Inl e" by (cases "fn i") simp_all
    have "\<forall>j<k'. isl (fn (Suc i + j))"
      using Suc.prems(1) Suc by force
    moreover have "fn (Suc i + k') = Inr v"
      using Suc.prems(2) Suc by simp
    moreover have "k' \<le> n"
      using Suc.prems(3) Suc by simp
    ultimately have "retry_from fn (Suc i) n = Inr v"
      by (rule Suc.IH)
    with e show ?thesis by simp
  qed
qed

lemma retry_from_failure:
  "(\<forall>j\<le>n. isl (fn (i + j))) \<Longrightarrow> retry_from fn i n = fn (i + n)"
proof (induction n arbitrary: i)
  case 0
  then show ?case by simp
next
  case (Suc n)
  from Suc.prems have "isl (fn i)" by force
  then obtain e where e: "fn i = Inl e" by (cases "fn i") simp_all
  have "\<forall>j\<le>n. isl (fn (Suc i + j))"
    using Suc.prems by force
  then have "retry_from fn (Suc i) n = fn (Suc i + n)"
    by (rule Suc.IH)
  with e show ?case by simp
qed

lemma retry_success:
  assumes "k < maxAttempts" and "\<forall>i. 1 \<le> i \<and> i \<le> k \<longrightarrow> isl (fn i)" and "fn (Suc k) = Inr v"
  shows "retry fn delay maxAttempts = Inr v"
  unfolding retry_def
proof (rule retry_from_success [where k = k])
  show "\<forall>j<k. isl (fn (1 + j))" using assms(2) by simp
  show "fn (1 + k) = Inr v" using assms(3) by simp
  show "k \<le> maxAttempts - 1" using assms(1) by simp
qed

lemma retry_failure:
  assumes "1 \<le> maxAttempts" and "\<forall>i. 1 \<le> i \<and> i \<le> maxAttempts \<longrightarrow> isl (fn i)"
  shows "retry fn delay maxAttempts = fn maxAttempts \<and> isl (fn maxAttempts)"
proof -
  have "\<forall>j\<le>maxAttempts - 1. isl (fn (1 + j))"
    using assms by auto
  then have "retry_from fn 1 (maxAttempts - 1) = fn (1 + (maxAttempts - 1))"
    by (rule retry_from_failure)
  with assms show ?thesis by (simp add: retry_def)
qed

lemma drain_settled:
  "jobSettled j \<Longrightarrow>
     drain svc (j # js) s =
       drain svc js
         (case textPromise svc (jobChunk j) of
            Inl e \<Rightarrow> s\<lparr>console := console s @ [e]\<rparr>
          | Inr t \<Rightarrow> if t = [] then s
                    else persist (dispatch (s\<lparr>content := mergeText (content s) t\<rparr>)))"
  by (simp add: queueTask_eq)

lemma settle_single:
  "queue s = [j] \<Longrightarrow> jobChunk j = c \<Longrightarrow>
     settle svc c s =
       (case textPromise svc c of
          Inl e \<Rightarrow> s\<lparr>console := console s @ [e]\<rparr>
        | Inr t \<Rightarrow> if t = [] then s
                  else persist (dispatch (s\<lparr>content := mergeText (content s) t\<rparr>)))
       \<lparr>queue := []\<rparr>"
  by (simp add: settle_def runQueue_def queueTask_eq persist_def dispatch_def split: sum.splits)

lemma settle_empty: "queue s = [] \<Longrightarrow> settle svc c s = s"
  by (simp add: settle_def runQueue_def)

lemma settle_single_twice:
  "queue s = [j] \<Longrightarrow> jobChunk j = c \<Longrightarrow> settle svc c (settle svc c s) = settle svc c s"
  by (rule settle_empty)
    (simp add: settle_single persist_def dispatch_def split: sum.splits)

text \<open>
  C3. If the attempts 1 to \<open>k\<close> of a transcription call fail, with \<open>k\<close> below
  \<open>maxAttempts\<close>, and attempt \<open>k + 1\<close> gives the text \<open>t\<close>, the retried call gives \<open>t\<close>; if
  all \<open>maxAttempts\<close> attempts fail, it gives the last failure. For a chunk \<open>c\<close> of the
  session, whose call is retried with 2 attempts: in the first case the promise of the
  chunk resolves to \<open>t\<close>, its task applies \<open>t\<close> once (merged into the transcript, notified
  and persisted; an empty \<open>t\<close> counts as nothing to append) and leaves the queue, and a
  second settling changes nothing; in the second case the task ends without an error,
  changes nothing but the console log, which gets the last error, and leaves the queue,
  which goes on with the later tasks.
\<close>

theorem bounded_retry:
  "(k < maxAttempts \<and> (\<forall>i. 1 \<le> i \<and> i \<le> k \<longrightarrow> isl (fn i)) \<and> fn (Suc k) = Inr t \<longrightarrow>
      retry fn delay maxAttempts = Inr t) \<and>
   (1 \<le> maxAttempts \<and> (\<forall>i. 1 \<le> i \<and> i \<le> maxAttempts \<longrightarrow> isl (fn i)) \<longrightarrow>
      retry fn delay maxAttempts = fn maxAttempts) \<and>
   (k < 2 \<and> (\<forall>i. 1 \<le> i \<and> i \<le> k \<longrightarrow> isl (svc c i)) \<and> svc c (Suc k) = Inr t \<longrightarrow>
      textPromise svc c = Inr t \<and>
      queueTask (textPromise svc c) s =
        Inr (if t = [] then s
             else persist (dispatch (s\<lparr>content := mergeText (content s) t\<rparr>))) \<and>
      (jobSettled j \<and> jobChunk j = c \<longrightarrow>
         drain svc (j # js) s =
           drain svc js
             (if t = [] then s
              else persist (dispatch (s\<lparr>content := mergeText (content s) t\<rparr>)))) \<and>
      (queue s = [j] \<and> jobChunk j = c \<longrightarrow>
         settle svc c s =
           (if t = [] then s
            else persist (dispatch (s\<lparr>content := mergeText (content s) t\<rparr>)))\<lparr>queue := []\<rparr> \<and>
         settle svc c (settle svc c s) = settle svc c s)) \<and>
   ((\<forall>i. 1 \<le> i \<and> i \<le> 2 \<longrightarrow> isl (svc c i)) \<longrightarrow>
      textPromise svc c = svc c 2 \<and>
      queueTask (textPromise svc c) s =
        Inr (s\<lparr>console := console s @ [projl (svc c 2)]\<rparr>) \<and>
      (jobSettled j \<and> jobChunk j = c \<longrightarrow>
         drain svc (j # js) s =
           drain svc js (s\<lparr>console := console s @ [projl (svc c 2)]\<rparr>)) \<and>
      (queue s = [j] \<and> jobChunk j = c \<longrightarrow>
         settle svc c s = s\<lparr>console := console s @ [projl (svc c 2)], queue := []\<rparr> \<and>
         content (settle svc c s) = content s))"
proof (intro conjI impI)
  assume "k < maxAttempts \<and> (\<forall>i. 1 \<le> i \<and> i \<le> k \<longrightarrow> isl (fn i)) \<and> fn (Suc k) = Inr t"
  then show "retry fn delay maxAttempts = Inr t"
    using retry_success [of k maxAttempts fn t delay] by simp
next
  assume "1 \<le> maxAttempts \<and> (\<forall>i. 1 \<le> i \<and> i \<le> maxAttempts \<longrightarrow> isl (fn i))"
  then show "retry fn delay maxAttempts = fn maxAttempts"
    using retry_failure [of maxAttempts fn delay] by simp
next
  assume a: "k < 2 \<and> (\<forall>i. 1 \<le> i \<and> i \<le> k \<longrightarrow> isl (svc c i)) \<and> svc c (Suc k) = Inr t"
  then show p: "textPromise svc c = Inr t"
    using retry_success [of k 2 "svc c" t 100] by (simp add: textPromise_def)
  show "queueTask (textPromise svc c) s =
        Inr (if t = [] then s
             else persist (dispatch (s\<lparr>content := mergeText (content s) t\<rparr>)))"
    by (simp add: p queueTask_eq)
  {
    assume "jobSettled j \<and> jobChunk j = c"
    then show "drain svc (j # js) s =
           drain svc js
             (if t = [] then s
              else persist (dispatch (s\<lparr>content := mergeText (content s) t\<rparr>)))"
      using drain_settled [of j svc js s] by (simp add: p)
  }
  {
    assume q: "queue s = [j] \<and> jobChunk j = c"
    then show "settle svc c s =
           (if t = [] then s
            else persist (dispatch (s\<lparr>content := mergeText (content s) t\<rparr>)))\<lparr>queue := []\<rparr>"
      using settle_single [of s j c svc] by (simp add: p)
    from q show "settle svc c (settle svc c s) = settle svc c s"
      by (simp add: settle_single_twice)
  }
next
  assume a: "\<forall>i. 1 \<le> i \<and> i \<le> 2 \<longrightarrow> isl (svc c i)"
  then have p: "textPromise svc c = svc c 2" and l: "isl (svc c 2)"
    using retry_failure [of 2 "svc c" 100] by (simp_all add: textPromise_def)
  from l obtain e where e: "svc c 2 = Inl e" by (cases "svc c 2") simp_all
  show "textPromise svc c = svc c 2" by (rule p)
  show "queueTask (textPromise svc c) s =
        Inr (s\<lparr>console := console s @ [projl (svc c 2)]\<rparr>)"
    by (simp add: p e queueTask_eq)
  {
    assume "jobSettled j \<and> jobChunk j = c"
    then show "drain svc (j # js) s =
           drain svc js (s\<lparr>console := console s @ [projl (svc c 2)]\<rparr>)"
      using drain_settled [of j svc js s] by (simp add: p e)
  }
  {
    assume q: "queue s = [j] \<and> jobChunk j = c"
    then show s1: "settle svc c s = s\<lparr>console := console s @ [projl (svc c 2)], queue := []\<rparr>"
      using settle_single [of s j c svc] by (simp add: p e)
    show "content (settle svc c s) = content s"
      by (simp add: s1)
  }
qed

theorem bounded_retry_witness:
  "textPromise flakyService 0 = Inr (ascii ''late'') \<and>
   textPromise flakyService 1 = Inr (ascii ''early'') \<and>
   content (run flakyService
      [Capture (SpeechStart 1000), Capture (DataAvailable [1] 6000 6000),
       Capture (DataAvailable [2] 11000 11000),
       LangResolved 0 (ascii ''auto''), LangResolved 1 (ascii ''auto''),
       Settled 0, Settled 1, Settled 0, Settled 1] micSession) =
     [ascii ''late'', ascii ''early''] \<and>
   textPromise failingService 0 = Inl (WhisperError 2) \<and>
   content (run failingService
      [Capture (SpeechStart 1000), Capture (DataAvailable [1] 6000 6000),
       Capture (DataAvailable [2] 11000 11000),
       LangResolved 0 (ascii ''auto''), LangResolved 1 (ascii ''auto''),
       Settled 0] micSession) = [] \<and>
   console (run failingService
      [Capture (SpeechStart 1000), Capture (DataAvailable [1] 6000 6000),
       Capture (DataAvailable [2] 11000 11000),
       LangResolved 0 (ascii ''auto''), LangResolved 1 (ascii ''auto''),
       Settled 0] micSession) = [WhisperError 2] \<and>
   content (run failingService
      [Capture (SpeechStart 1000), Capture (DataAvailable [1] 6000 6000),
       Capture (DataAvailable [2] 11000 11000),
       LangResolved 0 (ascii ''auto''), LangResolved 1 (ascii ''auto''),
       Settled 0, Settled 1] micSession) = [ascii ''second'']"
  using
    bounded_retry [where k = 1 and maxAttempts = 2 and fn = "flakyService 0"
      and t = "ascii ''late''" and svc = flakyService and c = 0]
    bounded_retry [where k = 0 and maxAttempts = 2 and fn = "failingService 0"
      and t = "ascii ''early''" and svc = flakyService and c = 1]
    bounded_retry [where maxAttempts = 2 and fn = "failingService 0"
      and svc = failingService and c = 0]
  by (simp add: eval_defs flakyService_def failingService_def)

end
